theory Spec2Isabelle
  imports
    Main
    "HOL-Library.Multiset"
    "HOL-Library.Char_ord"
    "HOL-Library.List_Lexorder"
    "HOL-Library.Product_Lexorder"
begin

section \<open>Backlinks tree of vscode-markdown-notes\<close>

text \<open>
  A shallow embedding of \<^verbatim>\<open>src/BacklinksTreeDataProvider.ts\<close>: the grouping of
  backlink locations by file (\<^verbatim>\<open>locationListToTree\<close>), the tree items with their
  one-line preview (\<^verbatim>\<open>BacklinkItem\<close>) and the provider's query (\<^verbatim>\<open>getChildren\<close>).

  Conventions of the embedding.
  \<^item> A JavaScript string is a \<open>string\<close>; \<open>a < b\<close> on strings is the lexicographic
    order on the character codes (a proper prefix is smaller), which is what the
    relational operators of JavaScript compute on strings. The characters of HOL are
    8-bit; code units beyond 255 are outside the model, and no proof below depends on
    the size of the alphabet.
  \<^item> Line and character numbers are \<open>nat\<close> (the editor's positions are non-negative
    integers); the arithmetic \<^verbatim>\<open>character - 12\<close> is done in \<open>int\<close>.
  \<^item> An exception or the reason of a rejected promise is the \<open>Inl\<close> of a sum; a returned
    value or the value of a fulfilled promise is the \<open>Inr\<close>.
  \<^item> Calls into the editor and into the note parser, and the settlements of the promises
    they return, are recorded as a list of events, in the order in which they happen.
\<close>

subsection \<open>Data model\<close>

record Position =
  line :: nat
  character :: nat

text \<open>The field \<^verbatim>\<open>end\<close> of a range is called \<open>end_pos\<close> here.\<close>

record Range =
  start :: Position
  end_pos :: Position

record Uri =
  fsPath :: string

text \<open>The field \<^verbatim>\<open>range\<close> of a location is called \<open>range_of\<close> here.\<close>

record Location =
  uri :: Uri
  range_of :: Range

text \<open>
  The tree items. The command of a leaf item is \<^verbatim>\<open>vscode.open\<close> with the uri of the
  location and the options \<^verbatim>\<open>{preview: true, selection: range}\<close>.
\<close>

datatype TreeItemCollapsibleState = CollapsibleNone | Collapsed | Expanded

record Command =
  command_id :: string
  argument_uri :: Uri
  argument_preview :: bool
  argument_selection :: Range
  title :: string

record BacklinkItem =
  label :: string
  collapsibleState :: TreeItemCollapsibleState
  locations :: "Location list option"
  location :: "Location option"
  filename :: string
  command :: "Command option"
  description :: string
  tooltip :: string
  iconPath :: string

text \<open>
  The groups of the tree. The field \<^verbatim>\<open>file\<close> is called \<open>file_name\<close> here. The
  record of the tree items has a field \<open>locations\<close> as well; it is written
  \<open>BacklinkItem.locations\<close>, and \<open>locations\<close> alone is the field of a group.
\<close>

record FileWithLocations =
  file_name :: string
  locations :: "Location list"

datatype error = TypeError | Rejected

text \<open>
  Modelled from the spec: the enumeration \<^verbatim>\<open>RefType\<close> of \<^verbatim>\<open>src/Ref.ts\<close> is missing
  from the sources; its two members that the provider uses are the reference kinds of the
  specification, wiki links and hyperlinks.
\<close>

datatype RefType = WikiLink | Hyperlink

subsection \<open>Library functions of the platform\<close>

text \<open>
  \<^verbatim>\<open>path.basename\<close> of Node.js for POSIX paths: trailing slashes are skipped and the
  last segment is returned. (On Windows the function also cuts at backslashes.) No proof
  below unfolds this definition, so the general statements hold for either variant; only
  the concrete examples evaluate it.
\<close>

definition basename :: "string \<Rightarrow> string" where
  "basename p =
     rev (takeWhile (\<lambda>c. c \<noteq> CHR ''/'') (dropWhile (\<lambda>c. c = CHR ''/'') (rev p)))"

text \<open>
  \<^verbatim>\<open>Array.prototype.sort(cmp)\<close>. The sort of ECMAScript is stable, and for a comparator
  that is a total preorder the stable sorted arrangement is unique; it is computed here by
  insertion from the right: an element goes in front of the first element that it does
  not exceed.
\<close>

fun insert_by :: "('a \<Rightarrow> 'a \<Rightarrow> int) \<Rightarrow> 'a \<Rightarrow> 'a list \<Rightarrow> 'a list" where
  "insert_by cmp x [] = [x]"
| "insert_by cmp x (y # ys) =
     (if cmp x y \<le> 0 then x # y # ys else y # insert_by cmp x ys)"

definition array_sort :: "('a \<Rightarrow> 'a \<Rightarrow> int) \<Rightarrow> 'a list \<Rightarrow> 'a list" where
  "array_sort cmp xs = foldr (insert_by cmp) xs []"

text \<open>
  \<^verbatim>\<open>String.prototype.split(/\r?\n/)\<close>: the text is cut at every line feed, and a
  carriage return directly in front of a line feed belongs to the separator. The first
  argument accumulates the current line. The empty text has one (empty) line.
\<close>

fun split_lines :: "string \<Rightarrow> string \<Rightarrow> string list" where
  "split_lines cur [] = [cur]"
| "split_lines cur [c] = (if c = CHR 0x0A then [cur, []] else [cur @ [c]])"
| "split_lines cur (c # d # cs) =
     (if c = CHR 0x0A then cur # split_lines [] (d # cs)
      else if c = CHR 0x0D \<and> d = CHR 0x0A then cur # split_lines [] cs
      else split_lines (cur @ [c]) (d # cs))"

text \<open>\<^verbatim>\<open>String.prototype.substr(s)\<close> with one argument; a negative start counts from the end.\<close>

definition substr :: "string \<Rightarrow> int \<Rightarrow> string" where
  "substr str s =
     (if s < 0 then drop (nat (max 0 (int (length str) + s))) str else drop (nat s) str)"

text \<open>The decimal digits of a number, as a template literal prints it.\<close>

fun string_of_nat :: "nat \<Rightarrow> string" where
  "string_of_nat n =
     (if n < 10 then [char_of (48 + n)]
      else string_of_nat (n div 10) @ [char_of (48 + n mod 10)])"

text \<open>\<^verbatim>\<open>Array.prototype.join(sep)\<close> on strings.\<close>

fun join :: "string \<Rightarrow> string list \<Rightarrow> string" where
  "join sep [] = []"
| "join sep [x] = x"
| "join sep (x # y # ys) = x @ sep @ join sep (y # ys)"

subsection \<open>The object used as a dictionary\<close>

text \<open>
  \<^verbatim>\<open>let m: Record<string, FileWithLocations> = {}\<close> is a plain object. Its own properties
  are kept as an association list in insertion order. Reading \<^verbatim>\<open>m[f]\<close> finds an own
  property, or else a property inherited from \<^verbatim>\<open>Object.prototype\<close> (a function, or the
  prototype object itself for \<^verbatim>\<open>__proto__\<close>: truthy, and without a \<^verbatim>\<open>locations\<close>
  field), or else \<^verbatim>\<open>undefined\<close>.
\<close>

datatype 'a property = Own 'a | Inherited | Undefined

definition objectPrototypeKeys :: "string list" where
  "objectPrototypeKeys =
     [''constructor'', ''__defineGetter__'', ''__defineSetter__'', ''hasOwnProperty'',
      ''__lookupGetter__'', ''__lookupSetter__'', ''isPrototypeOf'',
      ''propertyIsEnumerable'', ''toString'', ''valueOf'', ''__proto__'',
      ''toLocaleString'']"

type_synonym groups = "(string \<times> FileWithLocations) list"

definition get_property :: "groups \<Rightarrow> string \<Rightarrow> FileWithLocations property" where
  "get_property m f =
     (case map_of m f of
        Some fwl \<Rightarrow> Own fwl
      | None \<Rightarrow> if f \<in> set objectPrototypeKeys then Inherited else Undefined)"

text \<open>\<^verbatim>\<open>m[f].locations.push(l)\<close> for an own property \<open>f\<close>.\<close>

fun push_location :: "string \<Rightarrow> Location \<Rightarrow> groups \<Rightarrow> groups" where
  "push_location f l [] = []"
| "push_location f l ((k, fwl) # m) =
     (if k = f then (k, fwl\<lparr>locations := locations fwl @ [l]\<rparr>) # m
      else (k, fwl) # push_location f l m)"

subsection \<open>Grouping: \<^verbatim>\<open>locationListToTree\<close>\<close>

text \<open>
  The body of the callback of \<^verbatim>\<open>locations.map\<close> (lines 35 to 45): the group of the
  basename is created when \<^verbatim>\<open>m[f]\<close> is falsy, then the location is pushed. When \<^verbatim>\<open>m[f]\<close>
  is an inherited property, no group is created and \<^verbatim>\<open>m[f].locations\<close> is
  \<^verbatim>\<open>undefined\<close>, so the push throws a \<^verbatim>\<open>TypeError\<close>.
\<close>

definition add_location :: "groups \<Rightarrow> Location \<Rightarrow> error + groups" where
  "add_location m l =
     (let f = basename (fsPath (uri l));
          m' = (case get_property m f of
                  Undefined \<Rightarrow> m @ [(f, \<lparr>file_name = f, locations = []\<rparr>)]
                | _ \<Rightarrow> m)
      in case get_property m' f of
           Own fwl \<Rightarrow> Inr (push_location f l m')
         | _ \<Rightarrow> Inl TypeError)"

fun collect :: "groups \<Rightarrow> Location list \<Rightarrow> error + groups" where
  "collect m [] = Inr m"
| "collect m (l # ls) =
     (case add_location m l of Inl e \<Rightarrow> Inl e | Inr m' \<Rightarrow> collect m' ls)"

text \<open>The comparator \<^verbatim>\<open>asc\<close> (lines 48 to 56), on strings or numbers.\<close>

definition asc :: "'a::linorder \<Rightarrow> 'a \<Rightarrow> int" where
  "asc a b = (if a < b then - 1 else if a > b then 1 else 0)"

text \<open>The comparator of the locations of one file (lines 60 to 77).\<close>

definition compare_start :: "Location \<Rightarrow> Location \<Rightarrow> int" where
  "compare_start locA locB =
     (let a = start (range_of locA); b = start (range_of locB) in
      if line a < line b then - 1
      else if line a > line b then 1
      else if character a < character b then - 1
      else if character a > character b then 1
      else 0)"

definition sort_locations :: "FileWithLocations \<Rightarrow> FileWithLocations" where
  "sort_locations fwl = fwl\<lparr>locations := array_sort compare_start (locations fwl)\<rparr>"

text \<open>
  \<^verbatim>\<open>Object.values(m)\<close> lists the groups; they are taken in insertion order here. An
  engine lists the keys that are array indices first; since the groups have distinct
  names and are sorted by name right away, the order of the listing does not reach the
  result (lemma \<open>array_sort_file_perm\<close> below).
\<close>

definition locationListToTree :: "Location list \<Rightarrow> error + FileWithLocations list" where
  "locationListToTree locs =
     (case collect [] locs of
        Inl e \<Rightarrow> Inl e
      | Inr m \<Rightarrow>
          (let arr = array_sort (\<lambda>a b. asc (file_name a) (file_name b)) (map snd m)
           in Inr (map sort_locations arr)))"

subsection \<open>Tree items: \<^verbatim>\<open>BacklinkItem\<close>\<close>

text \<open>
  The start offset of the preview (lines 151 to 154): twelve characters in front of the
  reference, and the whole line when that offset is below 20.
\<close>

definition preview_start :: "nat \<Rightarrow> int" where
  "preview_start c = (let s = int c - 12 in if s < 20 then 0 else s)"

text \<open>
  The preview of a location (lines 147 to 155). The lines of the text are those of
  \<^verbatim>\<open>(fileContents || '').toString().split(/\r?\n/)\<close>. \<^verbatim>\<open>lines[n]\<close> beyond the last line
  is \<^verbatim>\<open>undefined\<close>, and \<^verbatim>\<open>line.substr\<close> then throws a \<^verbatim>\<open>TypeError\<close>.
\<close>

definition file_lines :: "string option \<Rightarrow> string list" where
  "file_lines fileContents =
     split_lines [] (case fileContents of None \<Rightarrow> [] | Some t \<Rightarrow> t)"

definition preview :: "Location \<Rightarrow> string option \<Rightarrow> error + string" where
  "preview l fileContents =
     (let lines = file_lines fileContents;
          n = line (start (range_of l));
          s = preview_start (character (start (range_of l)))
      in if n < length lines then Inr (substr (lines ! n) s) else Inl TypeError)"

text \<open>
  The constructor (lines 124 to 167), with its parameters \<^verbatim>\<open>label\<close>,
  \<^verbatim>\<open>collapsibleState\<close>, \<^verbatim>\<open>locations\<close>, \<^verbatim>\<open>location\<close>, \<^verbatim>\<open>filename\<close> and
  \<^verbatim>\<open>fileContents\<close>; an optional parameter that is left out is \<open>None\<close>.
\<close>

definition new_BacklinkItem ::
  "string \<Rightarrow> TreeItemCollapsibleState \<Rightarrow> Location list option \<Rightarrow> Location option \<Rightarrow>
   string option \<Rightarrow> string option \<Rightarrow> error + BacklinkItem" where
  "new_BacklinkItem lbl cs locs loc fname fileContents =
     (let fn = (case fname of None \<Rightarrow> [] | Some s \<Rightarrow> s);
          r = (if map_option length locs = Some 1 then ''Reference'' else ''References'');
          cmd = map_option (\<lambda>l. \<lparr>command_id = ''vscode.open'', argument_uri = uri l,
                   argument_preview = True, argument_selection = range_of l,
                   title = ''Open File''\<rparr>) loc;
          descr = (case loc of
                     Some l \<Rightarrow> preview l fileContents
                   | None \<Rightarrow>
                       (case locs of
                          Some ls \<Rightarrow> Inr (string_of_nat (length ls) @ '' '' @ r)
                        | None \<Rightarrow> Inr []));
          lineText = (case loc of
                        Some l \<Rightarrow> [''line '' @ string_of_nat (line (start (range_of l)))]
                      | None \<Rightarrow> [])
      in case descr of
           Inl e \<Rightarrow> Inl e
         | Inr d \<Rightarrow>
             Inr \<lparr>label = lbl, collapsibleState = cs, BacklinkItem.locations = locs,
                  location = loc,
                  filename = fn, command = cmd, description = d,
                  tooltip = join '': '' (filter (\<lambda>s. s \<noteq> []) ([fn] @ lineText @ [d])),
                  iconPath = (case locs of None \<Rightarrow> ''undefined''
                              | Some ls \<Rightarrow> string_of_nat (length ls)) @ '' '' @ r\<rparr>)"

definition fromFileWithLocations :: "FileWithLocations \<Rightarrow> error + BacklinkItem" where
  "fromFileWithLocations fwl =
     new_BacklinkItem (file_name fwl) Expanded (Some (locations fwl)) None
       (Some (file_name fwl)) None"

subsection \<open>Promises\<close>

text \<open>
  A promise settles asynchronously: it is fulfilled with a value (\<open>Inr\<close>) or rejected
  with a reason (\<open>Inl\<close>), and the host decides in which order the promises of a query
  settle. A promise is modelled by its outcome and by the logical time of its settlement
  (a smaller time is an earlier settlement); every promise is taken to settle. The
  reactions registered on a promise run at the time of its settlement.
\<close>

datatype 'a promise = Promise (settles_at: nat) (outcome: "error + 'a")

text \<open>
  \<^verbatim>\<open>Promise.all\<close>. When all promises are fulfilled, the result is fulfilled with their
  values in the order of the list, at the time of the last settlement. Otherwise the
  result is rejected as soon as the first promise is rejected, with the reason of that
  promise: the rejected promise that settles earliest (of two rejected at the same time,
  the one that comes first in the list).
\<close>

fun earliest_rejection :: "'a promise list \<Rightarrow> (nat \<times> error) option" where
  "earliest_rejection [] = None"
| "earliest_rejection (p # ps) =
     (case outcome p of
        Inr v \<Rightarrow> earliest_rejection ps
      | Inl e \<Rightarrow>
          (case earliest_rejection ps of
             None \<Rightarrow> Some (settles_at p, e)
           | Some (t, e') \<Rightarrow>
               if settles_at p \<le> t then Some (settles_at p, e) else Some (t, e')))"

fun fulfilled_values :: "'a promise list \<Rightarrow> 'a list" where
  "fulfilled_values [] = []"
| "fulfilled_values (p # ps) =
     (case outcome p of
        Inr v \<Rightarrow> v # fulfilled_values ps
      | Inl e \<Rightarrow> fulfilled_values ps)"

definition promise_all :: "'a promise list \<Rightarrow> 'a list promise" where
  "promise_all ps =
     (case earliest_rejection ps of
        Some (t, e) \<Rightarrow> Promise t (Inl e)
      | None \<Rightarrow> Promise (fold max (map settles_at ps) 0) (Inr (fulfilled_values ps)))"

text \<open>
  \<^verbatim>\<open>p.then(cb)\<close>, and the continuation of an \<^verbatim>\<open>async\<close> function after \<^verbatim>\<open>await p\<close>: the
  callback runs when \<open>p\<close> is fulfilled, and what it returns or throws settles the new
  promise; a rejection of \<open>p\<close> is passed on and the callback does not run.
\<close>

definition promise_then :: "'a promise \<Rightarrow> ('a \<Rightarrow> error + 'b) \<Rightarrow> 'b promise" where
  "promise_then p cb =
     Promise (settles_at p) (case outcome p of Inl e \<Rightarrow> Inl e | Inr v \<Rightarrow> cb v)"

text \<open>
  The results of a list of computations that run one after the other, as the callback of
  \<^verbatim>\<open>Array.prototype.map\<close> does: the first exception ends the run.
\<close>

fun all_results :: "(error + 'a) list \<Rightarrow> error + 'a list" where
  "all_results [] = Inr []"
| "all_results (p # ps) =
     (case p of
        Inl e \<Rightarrow> Inl e
      | Inr x \<Rightarrow> (case all_results ps of Inl e \<Rightarrow> Inl e | Inr xs \<Rightarrow> Inr (x # xs)))"

subsection \<open>The host and the query: \<^verbatim>\<open>getChildren\<close>\<close>

text \<open>
  What the provider reads from its surroundings: the uri of the document of the active
  text editor (if there is an active editor), the note parser's
  \<^verbatim>\<open>NoteParser.searchBacklinksFor\<close> (\<^verbatim>\<open>src/NoteParser.ts\<close> is missing from the
  sources, so the search is a parameter) and the editor's \<^verbatim>\<open>workspace.openTextDocument\<close>
  with the text of the opened document. Both return promises.
\<close>

record Host =
  activeTextEditor :: "Uri option"
  searchBacklinksFor :: "string \<Rightarrow> RefType \<Rightarrow> Location list promise"
  openTextDocument :: "Uri \<Rightarrow> string promise"

text \<open>
  The events of a query, in the order in which they happen: the calls that the code
  issues (the information message, the searches, the opening of documents, and the call of
  \<^verbatim>\<open>locationListToTree\<close> with its argument), and the settlements of the promises that
  the host returned.
\<close>

datatype event =
  ShowInformationMessage string
| CallSearchBacklinksFor string RefType
| CallOpenTextDocument Uri
| SearchBacklinksForSettled string RefType
| OpenTextDocumentSettled Uri
| CallLocationListToTree "Location list"

text \<open>
  The asynchronous events of a query come with their logical times and happen in the
  order of these times; events of the same time happen in the order in which they are
  listed.
\<close>

definition timeline :: "(nat \<times> event) list \<Rightarrow> event list" where
  "timeline timed = map snd (sort_key fst timed)"

text \<open>The events that a reaction on the promise \<open>p\<close> issues: none when \<open>p\<close> is rejected.\<close>

definition reaction_events :: "'a promise \<Rightarrow> ('a \<Rightarrow> event list) \<Rightarrow> (nat \<times> event) list" where
  "reaction_events p evs =
     (case outcome p of
        Inl e \<Rightarrow> []
      | Inr v \<Rightarrow> map (\<lambda>ev. (settles_at p, ev)) (evs v))"

text \<open>The negation \<^verbatim>\<open>!x\<close> of an optional string: true for a missing and for an empty one.\<close>

definition falsy :: "string option \<Rightarrow> bool" where
  "falsy x = (case x of None \<Rightarrow> True | Some s \<Rightarrow> s = [])"

text \<open>
  \<^verbatim>\<open>fromLocation\<close> (lines 178 to 185) is an \<^verbatim>\<open>async\<close> function: the document is
  requested at once, and the item is constructed when the document has arrived.
\<close>

definition fromLocation :: "Host \<Rightarrow> Location \<Rightarrow> string option \<Rightarrow> BacklinkItem promise" where
  "fromLocation host l fname =
     (let lineNum = line (start (range_of l)) + 1;
          lbl = string_of_nat lineNum @ '':''
      in promise_then (openTextDocument host (uri l))
           (\<lambda>text. new_BacklinkItem lbl CollapsibleNone None (Some l) fname (Some text)))"

text \<open>
  The query (lines 82 to 115) of a provider constructed with \<open>workspaceRoot\<close>. The
  result is the list of the events of the query and the outcome of the returned promise.
  At the top level the two searches are called first; the callback of \<^verbatim>\<open>then\<close>, which
  calls \<^verbatim>\<open>locationListToTree\<close>, is a reaction on the promise of \<^verbatim>\<open>Promise.all\<close>.
\<close>

definition getChildren ::
  "Host \<Rightarrow> string option \<Rightarrow> BacklinkItem option \<Rightarrow> event list \<times> (error + BacklinkItem list)"
  where
  "getChildren host workspaceRoot element =
     (let f = map_option fsPath (activeTextEditor host) in
      if falsy f then ([], Inr [])
      else if falsy workspaceRoot then
        ([ShowInformationMessage ''No refs in empty workspace''], Inr [])
      else
        (let activeFilename = basename (case f of None \<Rightarrow> [] | Some p \<Rightarrow> p) in
         case element of
           None \<Rightarrow>
             (let wiki = searchBacklinksFor host activeFilename WikiLink;
                  hyper = searchBacklinksFor host activeFilename Hyperlink;
                  both = promise_all [wiki, hyper];
                  result = promise_then both (\<lambda>arr.
                    let locs = arr ! 0 @ arr ! 1 in
                    case locationListToTree locs of
                      Inl e \<Rightarrow> Inl e
                    | Inr filesWithLocations \<Rightarrow>
                        all_results (map fromFileWithLocations filesWithLocations))
              in ([CallSearchBacklinksFor activeFilename WikiLink,
                   CallSearchBacklinksFor activeFilename Hyperlink] @
                  timeline
                    ([(settles_at wiki, SearchBacklinksForSettled activeFilename WikiLink),
                      (settles_at hyper, SearchBacklinksForSettled activeFilename Hyperlink)] @
                     reaction_events both
                       (\<lambda>arr. [CallLocationListToTree (arr ! 0 @ arr ! 1)])),
                  outcome result))
         | Some el \<Rightarrow>
             (case BacklinkItem.locations el of
                Some ls \<Rightarrow>
                  (map (\<lambda>l. CallOpenTextDocument (uri l)) ls @
                   timeline
                     (map (\<lambda>l. (settles_at (openTextDocument host (uri l)),
                                OpenTextDocumentSettled (uri l))) ls),
                   outcome
                     (promise_all (map (\<lambda>l. fromLocation host l (Some (filename el))) ls)))
              | None \<Rightarrow> ([], Inr []))))"

subsection \<open>Notions used in the statements\<close>

text \<open>The item that \<^verbatim>\<open>fromFileWithLocations\<close> constructs (it never fails).\<close>

definition item_of :: "FileWithLocations \<Rightarrow> BacklinkItem" where
  "item_of fwl = projr (fromFileWithLocations fwl)"

text \<open>The basename of the file of a hit, as line 36 computes it.\<close>

definition source_basename :: "Location \<Rightarrow> string" where
  "source_basename l = basename (fsPath (uri l))"

text \<open>The start of a hit as a pair; pairs are ordered lexicographically.\<close>

definition start_key :: "Location \<Rightarrow> nat \<times> nat" where
  "start_key l = (line (start (range_of l)), character (start (range_of l)))"

text \<open>The order of positions: the line first, then the character.\<close>

definition position_le :: "Position \<Rightarrow> Position \<Rightarrow> bool" where
  "position_le a b \<longleftrightarrow> line a < line b \<or> (line a = line b \<and> character a \<le> character b)"

text \<open>The hits of a list that lie in the file called \<open>k\<close>, in the order of the list.\<close>

definition hits_of :: "Location list \<Rightarrow> string \<Rightarrow> Location list" where
  "hits_of ls k = filter (\<lambda>l. source_basename l = k) ls"

text \<open>
  The invariant of the loop of \<^verbatim>\<open>locationListToTree\<close>: after the hits \<open>ls\<close>, the
  object \<open>m\<close> has one property for each basename seen, holding the hits of that file in
  the order of their arrival.
\<close>

definition collected :: "Location list \<Rightarrow> groups \<Rightarrow> bool" where
  "collected ls m \<longleftrightarrow>
     distinct (map fst m) \<and> fst ` set m = source_basename ` set ls \<and>
     (\<forall>(k, v) \<in> set m. v = \<lparr>file_name = k, locations = hits_of ls k\<rparr>) \<and>
     (\<forall>l \<in> set ls. source_basename l \<notin> set objectPrototypeKeys)"

text \<open>The group of the file called \<open>k\<close>, with its hits sorted stably by their start.\<close>

definition group_of :: "Location list \<Rightarrow> string \<Rightarrow> FileWithLocations" where
  "group_of ls k = \<lparr>file_name = k, locations = sort_key start_key (hits_of ls k)\<rparr>"

text \<open>The name of a group together with its hits as a multiset.\<close>

definition group_content :: "FileWithLocations \<Rightarrow> string \<times> Location multiset" where
  "group_content g = (file_name g, mset (locations g))"

text \<open>No two different hits of one basename start at the same position.\<close>

definition untied :: "Location list \<Rightarrow> bool" where
  "untied ls \<longleftrightarrow>
     (\<forall>a \<in> set ls. \<forall>b \<in> set ls.
        source_basename a = source_basename b \<and> start (range_of a) = start (range_of b)
        \<longrightarrow> a = b)"

subsection \<open>Data of the examples\<close>

text \<open>A hit in the file at path \<open>p\<close>, on line \<open>l\<close> from character \<open>c\<close> to character \<open>e\<close>.\<close>

definition hit :: "string \<Rightarrow> nat \<Rightarrow> nat \<Rightarrow> nat \<Rightarrow> Location" where
  "hit p l c e = \<lparr>uri = \<lparr>fsPath = p\<rparr>,
     range_of = \<lparr>start = \<lparr>line = l, character = c\<rparr>, end_pos = \<lparr>line = l, character = e\<rparr>\<rparr>\<rparr>"

text \<open>
  A host for the workspace of two notes, \<^verbatim>\<open>a.md\<close> with the text
  \<^verbatim>\<open>see [[b]] and [c](b.md)\<close> and \<^verbatim>\<open>b.md\<close>: the search for \<^verbatim>\<open>b.md\<close> finds the wiki link
  and the hyperlink of \<^verbatim>\<open>a.md\<close>, and the search for hyperlinks is the first to complete.
\<close>

definition example_host :: "Uri option \<Rightarrow> Host" where
  "example_host active =
     \<lparr>activeTextEditor = active,
      searchBacklinksFor = (\<lambda>name kind.
         if name = ''b.md'' then
           (case kind of WikiLink \<Rightarrow> Promise 2 (Inr [hit ''/notes/a.md'' 0 4 9])
            | Hyperlink \<Rightarrow> Promise 1 (Inr [hit ''/notes/a.md'' 0 14 23]))
         else Promise 1 (Inr [])),
      openTextDocument = (\<lambda>u.
         if fsPath u = ''/notes/a.md'' then Promise 1 (Inr ''see [[b]] and [c](b.md)'')
         else Promise 1 (Inl Rejected))\<rparr>"

section \<open>Properties\<close>

subsection \<open>The preview and the items\<close>

lemma falsy_simps: "falsy None" "falsy (Some s) = (s = [])"
  by (simp_all add: falsy_def)

lemma split_lines_no_lf:
  "CHR 0x0A \<notin> set cur \<Longrightarrow> ln \<in> set (split_lines cur s) \<Longrightarrow> CHR 0x0A \<notin> set ln"
  by (induction cur s rule: split_lines.induct) (auto split: if_splits)

lemma split_lines_nonempty: "split_lines cur s \<noteq> []"
  by (induction cur s rule: split_lines.induct) auto

lemma file_lines_length: "0 < length (file_lines fc)"
  using split_lines_nonempty by (simp add: file_lines_def)

lemma file_lines_falsy: "falsy fc \<Longrightarrow> file_lines fc = [[]]"
  by (auto simp: file_lines_def falsy_def split: option.splits)

lemma file_lines_no_lf: "ln \<in> set (file_lines fc) \<Longrightarrow> CHR 0x0A \<notin> set ln"
  unfolding file_lines_def by (rule split_lines_no_lf [of "[]"]) simp_all

lemma preview_start_eq: "preview_start c = (if c < 32 then 0 else int c - 12)"
  by (simp add: preview_start_def Let_def)

lemma preview_start_nonneg: "0 \<le> preview_start c"
  by (simp add: preview_start_def Let_def)

lemma substr_nonneg: "0 \<le> s \<Longrightarrow> substr str s = drop (nat s) str"
  by (simp add: substr_def)

lemma preview_Inr:
  "line (start (range_of l)) < length (file_lines fc) \<Longrightarrow>
   preview l fc = Inr (drop (nat (preview_start (character (start (range_of l)))))
     (file_lines fc ! line (start (range_of l))))"
  by (simp add: preview_def Let_def substr_nonneg preview_start_nonneg)

lemma preview_Inl:
  "length (file_lines fc) \<le> line (start (range_of l)) \<Longrightarrow> preview l fc = Inl TypeError"
  by (simp add: preview_def Let_def)

lemma new_BacklinkItem_location:
  "new_BacklinkItem lbl cs locs (Some l) fname fc =
     (case preview l fc of Inl e \<Rightarrow> Inl e
      | Inr d \<Rightarrow> Inr \<lparr>label = lbl, collapsibleState = cs, locations = locs, location = Some l,
          filename = (case fname of None \<Rightarrow> [] | Some s \<Rightarrow> s),
          command = Some \<lparr>command_id = ''vscode.open'', argument_uri = uri l,
                   argument_preview = True, argument_selection = range_of l,
                   title = ''Open File''\<rparr>,
          description = d,
          tooltip = join '': '' (filter (\<lambda>s. s \<noteq> [])
             ([case fname of None \<Rightarrow> [] | Some s \<Rightarrow> s,
               ''line '' @ string_of_nat (line (start (range_of l))), d])),
          iconPath = (case locs of None \<Rightarrow> ''undefined''
                              | Some ls \<Rightarrow> string_of_nat (length ls)) @ '' '' @
             (if map_option length locs = Some 1 then ''Reference'' else ''References'')\<rparr>)"
  by (simp add: new_BacklinkItem_def Let_def split: sum.splits)

lemma new_BacklinkItem_no_location:
  "\<exists>item. new_BacklinkItem lbl cs locs None fname fc = Inr item \<and> label item = lbl
     \<and> BacklinkItem.locations item = locs \<and> collapsibleState item = cs"
  by (simp add: new_BacklinkItem_def Let_def split: option.splits)

lemma fromFileWithLocations_Inr:
  "fromFileWithLocations fwl = Inr (item_of fwl)"
  using new_BacklinkItem_no_location [of "file_name fwl" Expanded "Some (locations fwl)" "Some (file_name fwl)" None]
  by (auto simp: fromFileWithLocations_def item_of_def)

lemma item_of_simps:
  "label (item_of fwl) = file_name fwl"
  "BacklinkItem.locations (item_of fwl) = Some (locations fwl)"
  "location (item_of fwl) = None"
  "collapsibleState (item_of fwl) = Expanded"
  "filename (item_of fwl) = file_name fwl"
  by (simp_all add: item_of_def fromFileWithLocations_def new_BacklinkItem_def Let_def)

subsection \<open>The query\<close>

lemma all_results_Inr: "all_results (map Inr xs) = Inr xs"
  by (induction xs) auto

lemma all_results_fromFileWithLocations:
  "all_results (map fromFileWithLocations t) = Inr (map item_of t)"
proof -
  have "map fromFileWithLocations t = map Inr (map item_of t)"
    by (simp add: fromFileWithLocations_Inr)
  then show ?thesis by (simp only: all_results_Inr)
qed

lemma getChildren_no_active:
  "falsy (map_option fsPath (activeTextEditor host)) \<Longrightarrow>
   getChildren host workspaceRoot element = ([], Inr [])"
  by (simp add: getChildren_def Let_def)

lemma getChildren_no_workspace:
  "\<not> falsy (map_option fsPath (activeTextEditor host)) \<Longrightarrow> falsy workspaceRoot \<Longrightarrow>
   getChildren host workspaceRoot element =
     ([ShowInformationMessage ''No refs in empty workspace''], Inr [])"
  by (simp add: getChildren_def Let_def)

lemma promise_all_pair:
  "promise_all [p, q] =
     (case (outcome p, outcome q) of
        (Inr v, Inr w) \<Rightarrow> Promise (max (settles_at p) (settles_at q)) (Inr [v, w])
      | (Inl e, Inr w) \<Rightarrow> Promise (settles_at p) (Inl e)
      | (Inr v, Inl e) \<Rightarrow> Promise (settles_at q) (Inl e)
      | (Inl e, Inl e') \<Rightarrow>
          if settles_at p \<le> settles_at q then Promise (settles_at p) (Inl e)
          else Promise (settles_at q) (Inl e'))"
  by (auto simp: promise_all_def max_def split: sum.splits)

lemma timeline_two:
  "timeline [(t1, a), (t2, b)] = (if t1 \<le> t2 then [a, b] else [b, a])"
  by (simp add: timeline_def)

lemma timeline_three:
  "t1 \<le> t3 \<Longrightarrow> t2 \<le> t3 \<Longrightarrow>
   timeline [(t1, a), (t2, b), (t3, c)] = (if t1 \<le> t2 then [a, b, c] else [b, a, c])"
  by (simp add: timeline_def)

lemma set_timeline: "set (timeline timed) = snd ` set timed"
  by (simp add: timeline_def)

lemma getChildren_top:
  assumes "activeTextEditor host = Some u" and "fsPath u \<noteq> []" and "\<not> falsy workspaceRoot"
  shows "getChildren host workspaceRoot None =
     (let name = basename (fsPath u);
          wiki = searchBacklinksFor host name WikiLink;
          hyper = searchBacklinksFor host name Hyperlink;
          settlements =
            (if settles_at wiki \<le> settles_at hyper
             then [SearchBacklinksForSettled name WikiLink, SearchBacklinksForSettled name Hyperlink]
             else [SearchBacklinksForSettled name Hyperlink, SearchBacklinksForSettled name WikiLink])
      in case (outcome wiki, outcome hyper) of
           (Inr ws, Inr hs) \<Rightarrow>
             ([CallSearchBacklinksFor name WikiLink, CallSearchBacklinksFor name Hyperlink] @
              settlements @ [CallLocationListToTree (ws @ hs)],
              case locationListToTree (ws @ hs) of
                Inl e \<Rightarrow> Inl e
              | Inr t \<Rightarrow> Inr (map item_of t))
         | (Inl e, Inr hs) \<Rightarrow>
             ([CallSearchBacklinksFor name WikiLink, CallSearchBacklinksFor name Hyperlink] @
              settlements, Inl e)
         | (Inr ws, Inl e) \<Rightarrow>
             ([CallSearchBacklinksFor name WikiLink, CallSearchBacklinksFor name Hyperlink] @
              settlements, Inl e)
         | (Inl e, Inl e') \<Rightarrow>
             ([CallSearchBacklinksFor name WikiLink, CallSearchBacklinksFor name Hyperlink] @
              settlements,
              Inl (if settles_at wiki \<le> settles_at hyper then e else e')))"
  using assms
  by (auto simp: getChildren_def Let_def falsy_def promise_all_pair promise_then_def
      reaction_events_def timeline_two timeline_three all_results_fromFileWithLocations
      split: sum.splits)

lemma getChildren_no_message:
  "activeTextEditor host = Some u \<Longrightarrow> fsPath u \<noteq> [] \<Longrightarrow> \<not> falsy workspaceRoot \<Longrightarrow>
   ShowInformationMessage msg \<notin> set (fst (getChildren host workspaceRoot element))"
  by (auto simp: getChildren_def Let_def falsy_def set_timeline reaction_events_def
      split: option.splits sum.splits)

lemma getChildren_top_events:
  assumes "activeTextEditor host = Some u" and "fsPath u \<noteq> []" and "\<not> falsy workspaceRoot"
  shows "take 2 (fst (getChildren host workspaceRoot None)) =
       [CallSearchBacklinksFor (basename (fsPath u)) WikiLink, CallSearchBacklinksFor (basename (fsPath u)) Hyperlink] \<and>
     (\<forall>pre locs post. (fst (getChildren host workspaceRoot None)) = pre @ CallLocationListToTree locs # post \<longrightarrow>
        SearchBacklinksForSettled (basename (fsPath u)) WikiLink \<in> set pre \<and>
        SearchBacklinksForSettled (basename (fsPath u)) Hyperlink \<in> set pre \<and>
        (\<exists>ws hs. outcome (searchBacklinksFor host (basename (fsPath u)) WikiLink) = Inr ws \<and> outcome (searchBacklinksFor host (basename (fsPath u)) Hyperlink) = Inr hs \<and> locs = ws @ hs) \<and>
        (\<forall>locs'. CallLocationListToTree locs' \<notin> set pre \<and>
                  CallLocationListToTree locs' \<notin> set post)) \<and>
     ((\<exists>ws hs. outcome (searchBacklinksFor host (basename (fsPath u)) WikiLink) = Inr ws \<and> outcome (searchBacklinksFor host (basename (fsPath u)) Hyperlink) = Inr hs) \<longleftrightarrow>
        (\<exists>locs. CallLocationListToTree locs \<in> set (fst (getChildren host workspaceRoot None)))) \<and>
     (\<forall>items. snd (getChildren host workspaceRoot None) = Inr items \<longleftrightarrow>
        (\<exists>ws hs t. outcome (searchBacklinksFor host (basename (fsPath u)) WikiLink) = Inr ws \<and> outcome (searchBacklinksFor host (basename (fsPath u)) Hyperlink) = Inr hs \<and>
           locationListToTree (ws @ hs) = Inr t \<and> items = map item_of t))"
proof -
  note top = getChildren_top [OF assms]
  show ?thesis
  proof (cases "outcome (searchBacklinksFor host (basename (fsPath u)) WikiLink)")
    case wl: (Inl e)
    show ?thesis
    proof (cases "outcome (searchBacklinksFor host (basename (fsPath u)) Hyperlink)")
      case (Inl e')
      with wl show ?thesis
        by (auto simp: top Let_def Cons_eq_append_conv)
    next
      case (Inr hs)
      with wl show ?thesis
        by (auto simp: top Let_def Cons_eq_append_conv)
    qed
  next
    case wr: (Inr ws)
    show ?thesis
    proof (cases "outcome (searchBacklinksFor host (basename (fsPath u)) Hyperlink)")
      case (Inl e')
      with wr show ?thesis
        by (auto simp: top Let_def Cons_eq_append_conv)
    next
      case (Inr hs)
      with wr show ?thesis
        by (auto simp: top Let_def Cons_eq_append_conv split: sum.splits)
    qed
  qed
qed

subsection \<open>The sort is the stable sort by key\<close>

lemma insert_by_insort_key:
  assumes "\<And>x y. cmp x y \<le> 0 \<longleftrightarrow> k x \<le> k y"
  shows "insert_by cmp x ys = insort_key k x ys"
  by (induction ys) (simp_all add: assms)

lemma array_sort_sort_key:
  assumes "\<And>x y. cmp x y \<le> 0 \<longleftrightarrow> k x \<le> k y"
  shows "array_sort cmp xs = sort_key k xs"
proof -
  have "insert_by cmp = insort_key k"
    by (intro ext) (rule insert_by_insort_key [OF assms])
  then show ?thesis by (simp add: array_sort_def sort_key_def)
qed

lemma asc_le: "asc a b \<le> 0 \<longleftrightarrow> a \<le> b"
  by (auto simp: asc_def)

lemma compare_start_le: "compare_start a b \<le> 0 \<longleftrightarrow> start_key a \<le> start_key b"
  by (auto simp: compare_start_def start_key_def Let_def less_eq_prod_def)

lemma array_sort_file: "array_sort (\<lambda>a b. asc (file_name a) (file_name b)) xs = sort_key file_name xs"
  by (rule array_sort_sort_key) (rule asc_le)

lemma array_sort_start: "array_sort compare_start xs = sort_key start_key xs"
  by (rule array_sort_sort_key) (rule compare_start_le)

subsection \<open>The loop of the grouping keeps its invariant\<close>

lemma push_location_map:
  "distinct (map fst m) \<Longrightarrow>
   push_location f l m =
     map (\<lambda>(k, v). (k, if k = f then v\<lparr>locations := locations v @ [l]\<rparr> else v)) m"
proof (induction m)
  case Nil
  then show ?case by simp
next
  case (Cons kv m)
  obtain k v where kv: "kv = (k, v)" by (cases kv)
  show ?case
  proof (cases "k = f")
    case True
    with Cons.prems kv have "\<forall>x \<in> set m. fst x \<noteq> f" by auto
    then have "map (\<lambda>(k, v). (k, if k = f then v\<lparr>locations := locations v @ [l]\<rparr> else v)) m = m"
      by (intro map_idI) auto
    with True kv show ?thesis by simp
  next
    case False
    with Cons kv show ?thesis by simp
  qed
qed

lemma map_fst_update: "map fst (map (\<lambda>(k, v). (k, g k v)) m) = map fst m"
  by (induction m) auto

lemma get_property_own:
  "distinct (map fst m) \<Longrightarrow> (f, v) \<in> set m \<Longrightarrow> get_property m f = Own v"
  by (simp add: get_property_def)

lemma get_property_absent:
  "f \<notin> fst ` set m \<Longrightarrow>
   get_property m f = (if f \<in> set objectPrototypeKeys then Inherited else Undefined)"
proof -
  assume "f \<notin> fst ` set m"
  then have "map_of m f = None" by (simp add: map_of_eq_None_iff)
  then show ?thesis by (simp add: get_property_def)
qed

lemma add_location_ok:
  assumes "distinct (map fst m)" and "source_basename l \<notin> set objectPrototypeKeys"
  shows "add_location m l =
     Inr (push_location (source_basename l) l
       (if source_basename l \<in> fst ` set m then m
        else m @ [(source_basename l, \<lparr>file_name = source_basename l, locations = []\<rparr>)]))"
proof (cases "source_basename l \<in> fst ` set m")
  case True
  then obtain v where "(source_basename l, v) \<in> set m" by auto
  with assms(1) have "get_property m (source_basename l) = Own v"
    by (rule get_property_own)
  with True show ?thesis
    by (simp add: add_location_def source_basename_def Let_def)
next
  case False
  let ?f = "source_basename l"
  let ?m' = "m @ [(?f, \<lparr>file_name = ?f, locations = []\<rparr>)]"
  from False assms(2) have 1: "get_property m ?f = Undefined"
    by (simp add: get_property_absent)
  from False assms(1) have "distinct (map fst ?m')" by auto
  then have 2: "get_property ?m' ?f = Own \<lparr>file_name = ?f, locations = []\<rparr>"
    by (rule get_property_own) simp
  from False 1 2 show ?thesis
    by (simp add: add_location_def source_basename_def Let_def)
qed

lemma add_location_inherited:
  assumes "source_basename l \<notin> fst ` set m" and "source_basename l \<in> set objectPrototypeKeys"
  shows "add_location m l = Inl TypeError"
  using assms by (simp add: add_location_def source_basename_def [symmetric] Let_def get_property_absent)

lemma collected_Nil: "collected [] []"
  by (simp add: collected_def)

lemma collected_step:
  assumes "collected ls m" and "source_basename l \<notin> set objectPrototypeKeys"
  shows "\<exists>m'. add_location m l = Inr m' \<and> collected (ls @ [l]) m'"
proof -
  let ?f = "source_basename l"
  define m0 where
    "m0 = (if ?f \<in> fst ` set m then m else m @ [(?f, \<lparr>file_name = ?f, locations = []\<rparr>)])"
  define upd where
    "upd = (\<lambda>(k, v :: FileWithLocations).
       (k, if k = ?f then v\<lparr>locations := locations v @ [l]\<rparr> else v))"
  from assms(1) have d: "distinct (map fst m)" by (simp add: collected_def)
  then have d0: "distinct (map fst m0)" by (auto simp: m0_def)
  have keys0: "fst ` set m0 = insert ?f (fst ` set m)" by (auto simp: m0_def)
  have elems0: "(k, v0) \<in> set m \<or>
      (k = ?f \<and> v0 = \<lparr>file_name = ?f, locations = []\<rparr> \<and> ?f \<notin> fst ` set m)"
    if "(k, v0) \<in> set m0" for k v0
    using that by (auto simp: m0_def split: if_splits)
  have eq: "add_location m l = Inr (push_location ?f l m0)"
    unfolding m0_def using d assms(2) by (rule add_location_ok)
  have pm: "push_location ?f l m0 = map upd m0"
    unfolding upd_def using d0 by (rule push_location_map)
  have keys: "map fst (map upd m0) = map fst m0"
    unfolding upd_def by (rule map_fst_update)
  have "collected (ls @ [l]) (map upd m0)"
    unfolding collected_def
  proof (intro conjI)
    show "distinct (map fst (map upd m0))" unfolding keys by (rule d0)
    have "fst ` set (map upd m0) = set (map fst (map upd m0))" by (simp only: set_map)
    also have "\<dots> = fst ` set m0" by (simp only: keys set_map)
    also have "\<dots> = source_basename ` set (ls @ [l])"
      using assms(1) by (simp add: keys0 collected_def)
    finally show "fst ` set (map upd m0) = source_basename ` set (ls @ [l])" .
    show "\<forall>(k, v) \<in> set (map upd m0). v = \<lparr>file_name = k, locations = hits_of (ls @ [l]) k\<rparr>"
    proof (clarify)
      fix k v assume "(k, v) \<in> set (map upd m0)"
      then obtain v0 where v0: "(k, v0) \<in> set m0"
        and v: "v = (if k = ?f then v0\<lparr>locations := locations v0 @ [l]\<rparr> else v0)"
        by (auto simp: upd_def)
      have "v0 = \<lparr>file_name = k, locations = hits_of ls k\<rparr>"
      proof (cases "(k, v0) \<in> set m")
        case True
        with assms(1) show ?thesis by (auto simp: collected_def)
      next
        case False
        with elems0 [OF v0] have k: "k = ?f" "v0 = \<lparr>file_name = ?f, locations = []\<rparr>"
          "?f \<notin> fst ` set m"
          by auto
        with assms(1) have "?f \<notin> source_basename ` set ls" by (simp add: collected_def)
        then have "\<forall>x \<in> set ls. source_basename x \<noteq> ?f" by (metis imageI)
        then have "hits_of ls ?f = []" by (simp add: hits_of_def filter_empty_conv)
        with k show ?thesis by simp
      qed
      with v show "v = \<lparr>file_name = k, locations = hits_of (ls @ [l]) k\<rparr>"
        by (auto simp: hits_of_def)
    qed
    show "\<forall>l \<in> set (ls @ [l]). source_basename l \<notin> set objectPrototypeKeys"
      using assms by (auto simp: collected_def)
  qed
  with eq pm show ?thesis by simp
qed

lemma collect_collected:
  assumes "collected ls0 m" and "\<forall>l \<in> set ls. source_basename l \<notin> set objectPrototypeKeys"
  shows "\<exists>m'. collect m ls = Inr m' \<and> collected (ls0 @ ls) m'"
  using assms
proof (induction ls arbitrary: m ls0)
  case Nil
  then show ?case by simp
next
  case (Cons l ls)
  from Cons.prems obtain m1 where m1: "add_location m l = Inr m1" "collected (ls0 @ [l]) m1"
    using collected_step [of ls0 m l] by auto
  from Cons.IH [OF m1(2)] Cons.prems(2)
  obtain m' where "collect m1 ls = Inr m'" "collected ((ls0 @ [l]) @ ls) m'" by auto
  with m1 show ?case by simp
qed

lemma collect_inherited:
  assumes "collected ls0 m" and "\<exists>l \<in> set ls. source_basename l \<in> set objectPrototypeKeys"
  shows "collect m ls = Inl TypeError"
  using assms
proof (induction ls arbitrary: m ls0)
  case Nil
  then show ?case by simp
next
  case (Cons l ls)
  show ?case
  proof (cases "source_basename l \<in> set objectPrototypeKeys")
    case True
    from Cons.prems(1) have "source_basename l \<notin> fst ` set m"
      using True by (auto simp: collected_def)
    then have "add_location m l = Inl TypeError"
      using True by (rule add_location_inherited)
    then show ?thesis by simp
  next
    case False
    with Cons.prems obtain m1 where m1: "add_location m l = Inr m1" "collected (ls0 @ [l]) m1"
      using collected_step [of ls0 m l] by auto
    from Cons.prems(2) False have "\<exists>l \<in> set ls. source_basename l \<in> set objectPrototypeKeys"
      by auto
    from Cons.IH [OF m1(2) this] m1 show ?thesis by simp
  qed
qed

subsection \<open>The tree in closed form\<close>

lemma insort_key_map:
  "insort_key f (g x) (map g xs) = map g (insort_key (\<lambda>x. f (g x)) x xs)"
  by (induction xs) simp_all

lemma sort_key_map: "sort_key f (map g xs) = map g (sort_key (\<lambda>x. f (g x)) xs)"
  by (induction xs) (simp_all add: insort_key_map)

lemma sort_distinct: "distinct xs \<Longrightarrow> sort xs = sorted_list_of_set (set xs)"
  by (simp add: sorted_list_of_set_sort_remdups distinct_remdups_id)

lemma collected_values:
  assumes "collected ls m"
  shows "map snd m = map (\<lambda>k. \<lparr>file_name = k, locations = hits_of ls k\<rparr>) (map fst m)"
proof -
  have "snd kv = \<lparr>file_name = fst kv, locations = hits_of ls (fst kv)\<rparr>" if "kv \<in> set m" for kv
    using assms that by (cases kv) (auto simp: collected_def)
  then show ?thesis by simp
qed

lemma locationListToTree_eq:
  assumes "\<forall>l \<in> set ls. source_basename l \<notin> set objectPrototypeKeys"
  shows "locationListToTree ls =
     Inr (map (group_of ls) (sorted_list_of_set (source_basename ` set ls)))"
proof -
  from collect_collected [OF collected_Nil assms]
  obtain m where m: "collect [] ls = Inr m" "collected ls m" by auto
  let ?g = "\<lambda>k. \<lparr>file_name = k, locations = hits_of ls k\<rparr>"
  from m(2) have d: "distinct (map fst m)" and k: "set (map fst m) = source_basename ` set ls"
    by (simp_all add: collected_def)
  have "sort_key file_name (map snd m) = sort_key file_name (map ?g (map fst m))"
    by (simp only: collected_values [OF m(2)])
  also have "\<dots> = map ?g (sort_key (\<lambda>k. k) (map fst m))"
    by (simp add: sort_key_map)
  also have "\<dots> = map ?g (sorted_list_of_set (source_basename ` set ls))"
    using sort_distinct [OF d] k by simp
  finally have "sort_key file_name (map snd m) =
      map ?g (sorted_list_of_set (source_basename ` set ls))" .
  moreover have "sort_locations (?g k) = group_of ls k" for k
    by (simp add: sort_locations_def group_of_def array_sort_start)
  ultimately show ?thesis
    using m(1) by (simp add: locationListToTree_def array_sort_file comp_def)
qed

lemma locationListToTree_throws:
  assumes "\<exists>l \<in> set ls. source_basename l \<in> set objectPrototypeKeys"
  shows "locationListToTree ls = Inl TypeError"
  using collect_inherited [OF collected_Nil assms] by (simp add: locationListToTree_def)

lemma locationListToTree_Inr_iff:
  "(\<exists>t. locationListToTree ls = Inr t) \<longleftrightarrow>
   (\<forall>l \<in> set ls. source_basename l \<notin> set objectPrototypeKeys)"
proof (cases "\<forall>l \<in> set ls. source_basename l \<notin> set objectPrototypeKeys")
  case True
  then show ?thesis by (simp add: locationListToTree_eq)
next
  case False
  then have "locationListToTree ls = Inl TypeError"
    by (intro locationListToTree_throws) simp
  with False show ?thesis by simp
qed

lemma locationListToTree_InrD:
  assumes "locationListToTree ls = Inr t"
  shows "t = map (group_of ls) (sorted_list_of_set (source_basename ` set ls))"
proof -
  from assms have "\<forall>l \<in> set ls. source_basename l \<notin> set objectPrototypeKeys"
    using locationListToTree_Inr_iff [of ls] by blast
  from locationListToTree_eq [OF this] assms show ?thesis by simp
qed

lemma group_names:
  "map file_name (map (group_of ls) ks) = ks"
  by (induction ks) (simp_all add: group_of_def)

lemma mset_hits_split:
  "k \<notin> set ks \<Longrightarrow>
   mset (filter (\<lambda>l. f l = k) ls) + mset (filter (\<lambda>l. f l \<in> set ks) ls) =
   mset (filter (\<lambda>l. f l = k \<or> f l \<in> set ks) ls)"
  by (induction ls) auto

lemma mset_concat_hits:
  "distinct ks \<Longrightarrow>
   mset (concat (map (\<lambda>k. locations (group_of ls k)) ks)) =
   mset (filter (\<lambda>l. source_basename l \<in> set ks) ls)"
proof (induction ks)
  case Nil
  then show ?case by simp
next
  case (Cons k ks)
  then show ?case
    using mset_hits_split [of k ks source_basename ls]
    by (simp add: group_of_def hits_of_def)
qed

lemma mset_concat_groups:
  "mset (concat (map locations (map (group_of ls) (sorted_list_of_set (source_basename ` set ls))))) = mset ls"
proof -
  let ?ks = "sorted_list_of_set (source_basename ` set ls)"
  have "set ?ks = source_basename ` set ls" by simp
  then have "filter (\<lambda>l. source_basename l \<in> set ?ks) ls = ls" by simp
  with mset_concat_hits [of ?ks ls] show ?thesis by (simp add: comp_def)
qed

subsection \<open>Permuted inputs\<close>

lemma map_sort_key: "map f (sort_key f xs) = sort (map f xs)"
  by (rule properties_for_sort [symmetric]) (simp_all add: sorted_sort_key)

lemma sort_key_perm_inj:
  assumes "mset xs = mset ys" and "inj_on f (set xs)"
  shows "sort_key f xs = sort_key f ys"
proof -
  from assms(1) have s: "set xs = set ys" by (rule mset_eq_setD)
  have "mset (map f xs) = mset (map f ys)" using assms(1) by simp
  then have "sort (map f xs) = sort (map f ys)"
    by (metis properties_for_sort sorted_sort mset_sort)
  then have "map f (sort_key f xs) = map f (sort_key f ys)" by (simp add: map_sort_key)
  moreover have "inj_on f (set (sort_key f xs) \<union> set (sort_key f ys))"
    using assms(2) s by simp
  ultimately show ?thesis by (simp add: inj_on_map_eq_map)
qed

lemma array_sort_file_perm:
  assumes "mset vs = mset ws" and "distinct (map file_name vs)"
  shows "array_sort (\<lambda>a b. asc (file_name a) (file_name b)) vs =
         array_sort (\<lambda>a b. asc (file_name a) (file_name b)) ws"
proof -
  from assms(2) have "inj_on file_name (set vs)" by (simp add: distinct_map)
  with assms(1) show ?thesis by (simp only: array_sort_file sort_key_perm_inj)
qed

subsection \<open>Order of the positions\<close>

lemma start_key_le: "start_key a \<le> start_key b \<longleftrightarrow> position_le (start (range_of a)) (start (range_of b))"
  by (auto simp: start_key_def position_le_def less_eq_prod_def)

lemma start_key_eq: "start_key a = start_key b \<longleftrightarrow> start (range_of a) = start (range_of b)"
  by (auto simp: start_key_def intro: Position.equality)

lemma sorted_start_key:
  "sorted (map start_key xs) \<longleftrightarrow> sorted_wrt position_le (map (\<lambda>l. start (range_of l)) xs)"
  by (induction xs) (auto simp: start_key_le)

lemma group_of_sorted:
  "sorted_wrt position_le (map (\<lambda>l. start (range_of l)) (locations (group_of ls k)))"
  unfolding sorted_start_key [symmetric] by (simp add: group_of_def sorted_sort_key)

lemma hits_of_perm: "mset xs = mset ys \<Longrightarrow> mset (hits_of xs k) = mset (hits_of ys k)"
  by (simp add: hits_of_def)

lemma group_content_group_of: "group_content (group_of ls k) = (k, mset (hits_of ls k))"
  by (simp add: group_content_def group_of_def)

lemma untied_inj: "untied ls \<Longrightarrow> inj_on start_key (set (hits_of ls k))"
  by (auto simp: untied_def inj_on_def hits_of_def start_key_eq)

lemma group_of_perm:
  assumes "mset xs = mset ys" and "untied xs"
  shows "group_of xs k = group_of ys k"
proof -
  have "sort_key start_key (hits_of xs k) = sort_key start_key (hits_of ys k)"
    using hits_of_perm [OF assms(1)] untied_inj [OF assms(2)] by (rule sort_key_perm_inj)
  then show ?thesis by (simp add: group_of_def)
qed

lemma distinct_group_names:
  "distinct (map file_name (map (group_of ls) (sorted_list_of_set A)))"
  by (simp only: group_names distinct_sorted_list_of_set)

subsection \<open>Inherited property names\<close>

text \<open>
  A basename that is the name of a property inherited from \<^verbatim>\<open>Object.prototype\<close> makes the
  grouping throw (here for a file called \<^verbatim>\<open>constructor\<close>); no name with a dot in it, so
  no name with a file extension, is such a name.
\<close>

lemma inherited_name_throws:
  "locationListToTree [hit ''/notes/constructor'' 0 0 5] = Inl TypeError"
  by code_simp

lemma dotted_name_not_inherited: "CHR ''.'' \<in> set f \<Longrightarrow> f \<notin> set objectPrototypeKeys"
  by (auto simp: objectPrototypeKeys_def)

lemma dotted_names_grouped:
  "\<forall>l \<in> set ls. CHR ''.'' \<in> set (source_basename l) \<Longrightarrow> \<exists>t. locationListToTree ls = Inr t"
  by (simp add: locationListToTree_Inr_iff dotted_name_not_inherited)

subsection \<open>Evaluated examples\<close>

lemma example_tree:
  "locationListToTree
     [hit ''/x/b.md'' 3 1 6, hit ''/x/a.md'' 0 5 9, hit ''/y/b.md'' 1 7 12, hit ''/x/b.md'' 1 2 7] =
   Inr [\<lparr>file_name = ''a.md'', locations = [hit ''/x/a.md'' 0 5 9]\<rparr>,
        \<lparr>file_name = ''b.md'', locations =
           [hit ''/x/b.md'' 1 2 7, hit ''/y/b.md'' 1 7 12, hit ''/x/b.md'' 3 1 6]\<rparr>]"
  by code_simp

lemma duplicates_tree:
  "locationListToTree
     [hit ''/x/a.md'' 0 4 9, hit ''/x/c.md'' 2 0 5, hit ''/x/a.md'' 0 4 9] =
   Inr [\<lparr>file_name = ''a.md'', locations = [hit ''/x/a.md'' 0 4 9, hit ''/x/a.md'' 0 4 9]\<rparr>,
        \<lparr>file_name = ''c.md'', locations = [hit ''/x/c.md'' 2 0 5]\<rparr>]"
  by code_simp

lemma same_basename_tree:
  "locationListToTree [hit ''/dir1/n.md'' 4 0 5, hit ''/dir2/n.md'' 2 3 8, hit ''/dir1/m.md'' 0 0 5] =
   Inr [\<lparr>file_name = ''m.md'', locations = [hit ''/dir1/m.md'' 0 0 5]\<rparr>,
        \<lparr>file_name = ''n.md'', locations = [hit ''/dir2/n.md'' 2 3 8, hit ''/dir1/n.md'' 4 0 5]\<rparr>]"
  by code_simp

lemma example_scan_tree:
  "locationListToTree ([hit ''/notes/a.md'' 0 4 9] @ [hit ''/notes/a.md'' 0 14 23]) =
   Inr [\<lparr>file_name = ''a.md'', locations = [hit ''/notes/a.md'' 0 4 9, hit ''/notes/a.md'' 0 14 23]\<rparr>]"
  by code_simp


subsection \<open>The claims\<close>

text \<open>
  C1. Whenever \<^verbatim>\<open>locationListToTree\<close> returns a tree for a list of hits, the names of
  its file groups are in strictly ascending order of the strings (character by character,
  a proper prefix first), and within each group the hits are in ascending order of their
  start position, by line first and then by character.
\<close>

theorem grouping_sorted:
  assumes "locationListToTree ls = Inr t"
  shows "sorted_wrt (<) (map file_name t) \<and>
     (\<forall>g \<in> set t. sorted_wrt position_le (map (\<lambda>l. start (range_of l)) (locations g)))"
proof -
  from assms have t: "t = map (group_of ls) (sorted_list_of_set (source_basename ` set ls))"
    by (rule locationListToTree_InrD)
  have "map file_name t = sorted_list_of_set (source_basename ` set ls)"
    unfolding t by (rule group_names)
  then have "sorted_wrt (<) (map file_name t)"
    by (simp only: strict_sorted_list_of_set)
  moreover have "\<forall>g \<in> set t. sorted_wrt position_le (map (\<lambda>l. start (range_of l)) (locations g))"
    unfolding t by (auto simp: group_of_sorted)
  ultimately show ?thesis by simp
qed

theorem grouping_sorted_witness:
  "locationListToTree
     [hit ''/x/b.md'' 3 1 6, hit ''/x/a.md'' 0 5 9, hit ''/y/b.md'' 1 7 12, hit ''/x/b.md'' 1 2 7] =
   Inr [\<lparr>file_name = ''a.md'', locations = [hit ''/x/a.md'' 0 5 9]\<rparr>,
        \<lparr>file_name = ''b.md'', locations =
           [hit ''/x/b.md'' 1 2 7, hit ''/y/b.md'' 1 7 12, hit ''/x/b.md'' 3 1 6]\<rparr>] \<and>
   sorted_wrt (<) [''a.md'', ''b.md''] \<and>
   sorted_wrt position_le [\<lparr>line = 0, character = 5\<rparr>] \<and>
   sorted_wrt position_le
     [\<lparr>line = 1, character = 2\<rparr>, \<lparr>line = 1, character = 7\<rparr>, \<lparr>line = 3, character = 1\<rparr>]"
  using grouping_sorted [OF example_tree] example_tree by (simp add: hit_def)

text \<open>
  C2, as stated, fails: two lists of hits that are permutations of each other can give
  different trees. The sort of the hits of a file compares the start positions only and
  is stable, so two different hits of one basename that start at the same position (here
  the notes \<^verbatim>\<open>/a/n.md\<close> and \<^verbatim>\<open>/b/n.md\<close>, each with a link at the start of its first
  line) stay in the order of the input.
\<close>

theorem grouping_permutation_counterexample:
  "mset [hit ''/a/n.md'' 0 0 5, hit ''/b/n.md'' 0 0 5] =
   mset [hit ''/b/n.md'' 0 0 5, hit ''/a/n.md'' 0 0 5] \<and>
   locationListToTree [hit ''/a/n.md'' 0 0 5, hit ''/b/n.md'' 0 0 5] \<noteq>
   locationListToTree [hit ''/b/n.md'' 0 0 5, hit ''/a/n.md'' 0 0 5]"
proof -
  have "locationListToTree [hit ''/a/n.md'' 0 0 5, hit ''/b/n.md'' 0 0 5] =
      Inr [\<lparr>file_name = ''n.md'', locations = [hit ''/a/n.md'' 0 0 5, hit ''/b/n.md'' 0 0 5]\<rparr>]"
    by code_simp
  moreover have "locationListToTree [hit ''/b/n.md'' 0 0 5, hit ''/a/n.md'' 0 0 5] =
      Inr [\<lparr>file_name = ''n.md'', locations = [hit ''/b/n.md'' 0 0 5, hit ''/a/n.md'' 0 0 5]\<rparr>]"
    by code_simp
  moreover have "hit ''/a/n.md'' 0 0 5 \<noteq> hit ''/b/n.md'' 0 0 5"
    by (simp add: hit_def)
  ultimately show ?thesis by (simp add: add_mset_commute)
qed

text \<open>
  C2, amended. For two lists of hits that are permutations of each other, the outcomes of
  \<^verbatim>\<open>locationListToTree\<close> agree in the sequence of file groups and in the hits of each
  group as a multiset (and both fail when one does); the outcomes are identical when no
  two different hits of one basename start at the same position. In particular two runs
  on the same list give identical trees.
\<close>

theorem grouping_permutation:
  assumes "mset xs = mset ys"
  shows "(untied xs \<longrightarrow> locationListToTree xs = locationListToTree ys) \<and>
     map_sum id (map group_content) (locationListToTree xs) =
     map_sum id (map group_content) (locationListToTree ys)"
proof (cases "\<forall>l \<in> set xs. source_basename l \<notin> set objectPrototypeKeys")
  case True
  from assms have s: "set xs = set ys" by (rule mset_eq_setD)
  with True have True': "\<forall>l \<in> set ys. source_basename l \<notin> set objectPrototypeKeys" by simp
  let ?ks = "sorted_list_of_set (source_basename ` set xs)"
  have x: "locationListToTree xs = Inr (map (group_of xs) ?ks)"
    using True by (rule locationListToTree_eq)
  have y: "locationListToTree ys = Inr (map (group_of ys) ?ks)"
    using locationListToTree_eq [OF True'] s by simp
  have "map (group_of xs) ?ks = map (group_of ys) ?ks" if "untied xs"
    using group_of_perm [OF assms that] by simp
  moreover have "map group_content (map (group_of xs) ?ks) = map group_content (map (group_of ys) ?ks)"
    using hits_of_perm [OF assms] by (simp add: group_content_group_of)
  ultimately show ?thesis by (simp add: x y)
next
  case False
  from assms have s: "set xs = set ys" by (rule mset_eq_setD)
  from False have "locationListToTree xs = Inl TypeError"
    by (intro locationListToTree_throws) simp
  moreover from False s have "locationListToTree ys = Inl TypeError"
    by (intro locationListToTree_throws) simp
  ultimately show ?thesis by simp
qed

theorem grouping_permutation_witness:
  "locationListToTree [hit ''/x/b.md'' 3 1 6, hit ''/x/a.md'' 0 5 9, hit ''/x/b.md'' 1 2 7] =
   locationListToTree [hit ''/x/b.md'' 1 2 7, hit ''/x/b.md'' 3 1 6, hit ''/x/a.md'' 0 5 9]"
proof -
  have 1: "mset [hit ''/x/b.md'' 3 1 6, hit ''/x/a.md'' 0 5 9, hit ''/x/b.md'' 1 2 7] =
      mset [hit ''/x/b.md'' 1 2 7, hit ''/x/b.md'' 3 1 6, hit ''/x/a.md'' 0 5 9]"
    by (simp add: add_mset_commute)
  have 2: "untied [hit ''/x/b.md'' 3 1 6, hit ''/x/a.md'' 0 5 9, hit ''/x/b.md'' 1 2 7]"
    by (simp add: untied_def hit_def)
  from grouping_permutation [OF 1] 2 show ?thesis by simp
qed

text \<open>
  C3. For every list of hits none of whose basenames is the name of a property inherited
  from \<^verbatim>\<open>Object.prototype\<close>, and so for every list of hits in files whose names have an
  extension, \<^verbatim>\<open>locationListToTree\<close> returns a tree. In a returned tree every hit is
  preserved: the hits of all groups together are the hits of the input as a
  multiset, so their number is the length of the input and duplicates are kept; the
  groups have distinct names, and the group of a name holds exactly the hits of the input
  with that basename, each as often as in the input.
\<close>

theorem grouping_preserves_hits:
  "((\<forall>l \<in> set ls. source_basename l \<notin> set objectPrototypeKeys) \<longrightarrow>
      (\<exists>t. locationListToTree ls = Inr t)) \<and>
   ((\<forall>l \<in> set ls. CHR ''.'' \<in> set (source_basename l)) \<longrightarrow>
      (\<exists>t. locationListToTree ls = Inr t)) \<and>
   (locationListToTree ls = Inr t \<longrightarrow>
      mset (concat (map locations t)) = mset ls \<and>
      length (concat (map locations t)) = length ls \<and>
      distinct (map file_name t) \<and>
      (\<forall>g \<in> set t. mset (locations g) = mset (hits_of ls (file_name g))))"
proof (intro conjI impI)
  assume "\<forall>l \<in> set ls. source_basename l \<notin> set objectPrototypeKeys"
  then show "\<exists>t. locationListToTree ls = Inr t"
    by (simp add: locationListToTree_eq)
next
  assume "\<forall>l \<in> set ls. CHR ''.'' \<in> set (source_basename l)"
  then show "\<exists>t. locationListToTree ls = Inr t"
    by (rule dotted_names_grouped)
next
  assume "locationListToTree ls = Inr t"
  then have t: "t = map (group_of ls) (sorted_list_of_set (source_basename ` set ls))"
    by (rule locationListToTree_InrD)
  show m: "mset (concat (map locations t)) = mset ls"
    unfolding t by (rule mset_concat_groups)
  show "length (concat (map locations t)) = length ls"
    using arg_cong [OF m, of size] by simp
  show "distinct (map file_name t)"
    unfolding t by (rule distinct_group_names)
  show "\<forall>g \<in> set t. mset (locations g) = mset (hits_of ls (file_name g))"
    unfolding t by (auto simp: group_of_def)
qed

theorem grouping_preserves_hits_witness:
  "locationListToTree
     [hit ''/x/a.md'' 0 4 9, hit ''/x/c.md'' 2 0 5, hit ''/x/a.md'' 0 4 9] =
   Inr [\<lparr>file_name = ''a.md'', locations = [hit ''/x/a.md'' 0 4 9, hit ''/x/a.md'' 0 4 9]\<rparr>,
        \<lparr>file_name = ''c.md'', locations = [hit ''/x/c.md'' 2 0 5]\<rparr>] \<and>
   mset ([hit ''/x/a.md'' 0 4 9, hit ''/x/a.md'' 0 4 9] @ [hit ''/x/c.md'' 2 0 5]) =
   mset [hit ''/x/a.md'' 0 4 9, hit ''/x/c.md'' 2 0 5, hit ''/x/a.md'' 0 4 9] \<and>
   length ([hit ''/x/a.md'' 0 4 9, hit ''/x/a.md'' 0 4 9] @ [hit ''/x/c.md'' 2 0 5]) = 3 \<and>
   distinct [''a.md'', ''c.md'']"
  using grouping_preserves_hits
    [of "[hit ''/x/a.md'' 0 4 9, hit ''/x/c.md'' 2 0 5, hit ''/x/a.md'' 0 4 9]"
        "[\<lparr>file_name = ''a.md'', locations = [hit ''/x/a.md'' 0 4 9, hit ''/x/a.md'' 0 4 9]\<rparr>,
          \<lparr>file_name = ''c.md'', locations = [hit ''/x/c.md'' 2 0 5]\<rparr>]"]
    duplicates_tree
  by simp

text \<open>
  C4. For a hit on a line of the text of its file, with start column \<open>c\<close>, the
  description of the constructed item is the part of that one line from the offset
  \<open>preview_start c\<close> to the end of the line; the offset is \<open>c - 12\<close>, replaced by \<open>0\<close>
  whenever \<open>c - 12 < 20\<close>. The preview contains no line feed. Column 5 gives the offset 0
  and column 40 the offset 28.
\<close>

theorem preview_extraction:
  assumes "line (start (range_of l)) < length (file_lines fc)"
  shows "\<exists>item. new_BacklinkItem lbl cs locs (Some l) fname fc = Inr item
      \<and> description item =
          drop (nat (preview_start (character (start (range_of l)))))
            (file_lines fc ! line (start (range_of l)))
      \<and> CHR 0x0A \<notin> set (description item)
      \<and> preview_start c = (if int c - 12 < 20 then 0 else int c - 12)
      \<and> preview_start 5 = 0 \<and> preview_start 40 = 28"
proof -
  let ?ln = "file_lines fc ! line (start (range_of l))"
  have "?ln \<in> set (file_lines fc)" using assms by simp
  then have "CHR 0x0A \<notin> set ?ln" by (rule file_lines_no_lf)
  then have "CHR 0x0A \<notin> set (drop (nat (preview_start (character (start (range_of l))))) ?ln)"
    by (auto dest: in_set_dropD)
  moreover have "preview_start c = (if int c - 12 < 20 then 0 else int c - 12)"
    "preview_start 5 = 0" "preview_start 40 = 28"
    by (simp_all add: preview_start_def Let_def)
  ultimately show ?thesis
    using assms by (simp add: new_BacklinkItem_location preview_Inr)
qed

theorem preview_extraction_witness:
  "description (projr (new_BacklinkItem ''2:'' CollapsibleNone None
       (Some (hit ''/notes/a.md'' 1 40 45)) (Some ''a.md'')
       (Some ''# A\<newline>Notes on the garden: soil, compost; see [[b]] for more\<newline>end'')))
     = ''ompost; see [[b]] for more'' \<and>
   description (projr (new_BacklinkItem ''1:'' CollapsibleNone None
       (Some (hit ''/notes/a.md'' 0 5 10)) (Some ''a.md'')
       (Some ''Also [[b]] is related'')))
     = ''Also [[b]] is related''"
  using
    preview_extraction [of "hit ''/notes/a.md'' 1 40 45"
      "Some ''# A\<newline>Notes on the garden: soil, compost; see [[b]] for more\<newline>end''"
      "''2:''" CollapsibleNone None "Some ''a.md''" 0]
    preview_extraction [of "hit ''/notes/a.md'' 0 5 10" "Some ''Also [[b]] is related''"
      "''1:''" CollapsibleNone None "Some ''a.md''" 0]
  by (auto simp: file_lines_def hit_def)

text \<open>
  C5. When there is no active note (no active editor, or a document without a path), the
  query at the top level returns the empty list and no event takes place, so the corpus
  is not searched; and grouping the empty list of hits returns the empty tree.
\<close>

theorem empty_queries:
  "(falsy (map_option fsPath (activeTextEditor host)) \<longrightarrow>
      getChildren host workspaceRoot None = ([], Inr [])) \<and>
   locationListToTree [] = Inr []"
  by (simp add: getChildren_no_active locationListToTree_def array_sort_def)

theorem empty_queries_witness:
  "getChildren (example_host None) (Some ''/notes'') None = ([], Inr []) \<and>
   locationListToTree [] = Inr []"
  using empty_queries [of "example_host None" "Some ''/notes''"]
  by (simp add: example_host_def falsy_def)

text \<open>
  C6. When the workspace root is \<^verbatim>\<open>null\<close> and there is an active note, the query
  resolves to the empty list, and the only event is the information message.
\<close>

theorem no_workspace_notice:
  assumes "activeTextEditor host = Some u" and "fsPath u \<noteq> []"
  shows "getChildren host None element =
     ([ShowInformationMessage ''No refs in empty workspace''], Inr [])"
  using assms by (simp add: getChildren_no_workspace falsy_def)

theorem no_workspace_notice_witness:
  "getChildren (example_host (Some \<lparr>fsPath = ''/notes/b.md''\<rparr>)) None None =
     ([ShowInformationMessage ''No refs in empty workspace''], Inr [])"
  using no_workspace_notice [of "example_host (Some \<lparr>fsPath = ''/notes/b.md''\<rparr>)" "\<lparr>fsPath = ''/notes/b.md''\<rparr>" None]
  by (simp add: example_host_def)

text \<open>
  C7. Hits are grouped by basename only: in a returned tree, two hits of the input with
  the same basename (whatever their directories) lie together in the group named by that
  basename, and in no other group.
\<close>

theorem grouping_by_basename:
  assumes "locationListToTree ls = Inr t"
    and "a \<in> set ls" and "b \<in> set ls"
    and "source_basename a = source_basename b"
  shows "\<exists>g. g \<in> set t \<and> file_name g = source_basename a \<and>
     a \<in> set (locations g) \<and> b \<in> set (locations g) \<and>
     (\<forall>g' \<in> set t. a \<in> set (locations g') \<or> b \<in> set (locations g') \<longrightarrow> g' = g)"
proof -
  from assms(1) have t: "t = map (group_of ls) (sorted_list_of_set (source_basename ` set ls))"
    by (rule locationListToTree_InrD)
  let ?g = "group_of ls (source_basename a)"
  have "source_basename a \<in> set (sorted_list_of_set (source_basename ` set ls))"
    using assms(2) by simp
  then have "?g \<in> set t" unfolding t by simp
  moreover have "file_name ?g = source_basename a" by (simp add: group_of_def)
  moreover have "a \<in> set (locations ?g)" "b \<in> set (locations ?g)"
    using assms(2,3,4) by (simp_all add: group_of_def hits_of_def)
  moreover have "g' = ?g"
    if "g' \<in> set t" and "a \<in> set (locations g') \<or> b \<in> set (locations g')" for g'
  proof -
    from that(1) obtain k where k: "g' = group_of ls k" unfolding t by auto
    with that(2) assms(4) have "k = source_basename a"
      by (auto simp: group_of_def hits_of_def)
    with k show ?thesis by simp
  qed
  ultimately show ?thesis by blast
qed

theorem grouping_by_basename_witness:
  "locationListToTree
     [hit ''/dir1/n.md'' 4 0 5, hit ''/dir2/n.md'' 2 3 8, hit ''/dir1/m.md'' 0 0 5] =
   Inr [\<lparr>file_name = ''m.md'', locations = [hit ''/dir1/m.md'' 0 0 5]\<rparr>,
        \<lparr>file_name = ''n.md'', locations = [hit ''/dir2/n.md'' 2 3 8, hit ''/dir1/n.md'' 4 0 5]\<rparr>] \<and>
   (\<exists>g. g \<in> set [\<lparr>file_name = ''m.md'', locations = [hit ''/dir1/m.md'' 0 0 5]\<rparr>,
        \<lparr>file_name = ''n.md'', locations = [hit ''/dir2/n.md'' 2 3 8, hit ''/dir1/n.md'' 4 0 5]\<rparr>] \<and>
     file_name g = ''n.md'' \<and>
     hit ''/dir1/n.md'' 4 0 5 \<in> set (locations g) \<and>
     hit ''/dir2/n.md'' 2 3 8 \<in> set (locations g))"
proof -
  have "source_basename (hit ''/dir1/n.md'' 4 0 5) = ''n.md''"
    "source_basename (hit ''/dir2/n.md'' 2 3 8) = ''n.md''"
    by (simp_all add: source_basename_def hit_def basename_def)
  with grouping_by_basename [OF same_basename_tree, of "hit ''/dir1/n.md'' 4 0 5"
      "hit ''/dir2/n.md'' 2 3 8"]
  have "\<exists>g. g \<in> set [\<lparr>file_name = ''m.md'', locations = [hit ''/dir1/m.md'' 0 0 5]\<rparr>,
        \<lparr>file_name = ''n.md'', locations = [hit ''/dir2/n.md'' 2 3 8, hit ''/dir1/n.md'' 4 0 5]\<rparr>] \<and>
     file_name g = ''n.md'' \<and>
     hit ''/dir1/n.md'' 4 0 5 \<in> set (locations g) \<and>
     hit ''/dir2/n.md'' 2 3 8 \<in> set (locations g)"
    by auto
  with same_basename_tree show ?thesis by (rule conjI)
qed

text \<open>
  C8. For a query at the top level with an active note and a workspace root, the search
  for wiki links and the search for hyperlinks are both issued first, in this order.
  Whenever \<^verbatim>\<open>locationListToTree\<close> is called, both searches have completed before (their
  settlements precede the call among the events, whichever of them completes first), both
  have been fulfilled, the argument of the call is the results of the search for wiki
  links followed by those of the search for hyperlinks, and there is no other such call.
  The call takes place exactly when both searches are fulfilled; and items are returned
  exactly when, in addition, the grouping returns a tree, of which the items are the groups.
\<close>

theorem scans_joined_before_grouping:
  assumes "activeTextEditor host = Some u" and "fsPath u \<noteq> []" and "\<not> falsy workspaceRoot"
    and "name = basename (fsPath u)"
    and "wiki = searchBacklinksFor host name WikiLink"
    and "hyper = searchBacklinksFor host name Hyperlink"
    and "events = fst (getChildren host workspaceRoot None)"
    and "result = snd (getChildren host workspaceRoot None)"
  shows "take 2 events =
       [CallSearchBacklinksFor name WikiLink, CallSearchBacklinksFor name Hyperlink] \<and>
     (\<forall>pre locs post. events = pre @ CallLocationListToTree locs # post \<longrightarrow>
        SearchBacklinksForSettled name WikiLink \<in> set pre \<and>
        SearchBacklinksForSettled name Hyperlink \<in> set pre \<and>
        (\<exists>ws hs. outcome wiki = Inr ws \<and> outcome hyper = Inr hs \<and> locs = ws @ hs) \<and>
        (\<forall>locs'. CallLocationListToTree locs' \<notin> set pre \<and>
                  CallLocationListToTree locs' \<notin> set post)) \<and>
     ((\<exists>ws hs. outcome wiki = Inr ws \<and> outcome hyper = Inr hs) \<longleftrightarrow>
        (\<exists>locs. CallLocationListToTree locs \<in> set events)) \<and>
     (\<forall>items. result = Inr items \<longleftrightarrow>
        (\<exists>ws hs t. outcome wiki = Inr ws \<and> outcome hyper = Inr hs \<and>
           locationListToTree (ws @ hs) = Inr t \<and> items = map item_of t))"
  unfolding assms(7,8) assms(5,6) assms(4)
  using assms(1,2,3) by (rule getChildren_top_events)

theorem scans_joined_before_grouping_witness:
  "getChildren (example_host (Some \<lparr>fsPath = ''/notes/b.md''\<rparr>)) (Some ''/notes'') None =
     ([CallSearchBacklinksFor ''b.md'' WikiLink, CallSearchBacklinksFor ''b.md'' Hyperlink,
       SearchBacklinksForSettled ''b.md'' Hyperlink, SearchBacklinksForSettled ''b.md'' WikiLink,
       CallLocationListToTree [hit ''/notes/a.md'' 0 4 9, hit ''/notes/a.md'' 0 14 23]],
      Inr [item_of \<lparr>file_name = ''a.md'',
             locations = [hit ''/notes/a.md'' 0 4 9, hit ''/notes/a.md'' 0 14 23]\<rparr>])"
proof -
  let ?h = "example_host (Some \<lparr>fsPath = ''/notes/b.md''\<rparr>)"
  have b: "basename ''/notes/b.md'' = ''b.md''" by (simp add: basename_def)
  have a: "activeTextEditor ?h = Some \<lparr>fsPath = ''/notes/b.md''\<rparr>"
    "fsPath \<lparr>fsPath = ''/notes/b.md''\<rparr> \<noteq> []" "\<not> falsy (Some ''/notes'')"
    by (simp_all add: example_host_def falsy_def)
  have s: "searchBacklinksFor ?h ''b.md'' WikiLink = Promise 2 (Inr [hit ''/notes/a.md'' 0 4 9])"
    "searchBacklinksFor ?h ''b.md'' Hyperlink = Promise 1 (Inr [hit ''/notes/a.md'' 0 14 23])"
    by (simp_all add: example_host_def)
  note inst = scans_joined_before_grouping [OF a refl refl refl refl refl]
  from inst have "snd (getChildren ?h (Some ''/notes'') None) =
       Inr [item_of \<lparr>file_name = ''a.md'',
             locations = [hit ''/notes/a.md'' 0 4 9, hit ''/notes/a.md'' 0 14 23]\<rparr>]"
    using s example_scan_tree b by auto
  moreover have "fst (getChildren ?h (Some ''/notes'') None) =
      [CallSearchBacklinksFor ''b.md'' WikiLink, CallSearchBacklinksFor ''b.md'' Hyperlink,
       SearchBacklinksForSettled ''b.md'' Hyperlink, SearchBacklinksForSettled ''b.md'' WikiLink,
       CallLocationListToTree [hit ''/notes/a.md'' 0 4 9, hit ''/notes/a.md'' 0 14 23]]"
    using s b by (simp add: getChildren_top [OF a] Let_def)
  ultimately show ?thesis by (simp add: prod_eq_iff)
qed

text \<open>
  C9, as stated, fails in its last part: the information message is also shown when the
  workspace root is the empty string, which the guard \<^verbatim>\<open>!this.workspaceRoot\<close> treats
  like \<^verbatim>\<open>null\<close>.
\<close>

theorem notice_precedence_counterexample:
  "ShowInformationMessage ''No refs in empty workspace''
     \<in> set (fst (getChildren (example_host (Some \<lparr>fsPath = ''/notes/b.md''\<rparr>)) (Some []) None)) \<and>
   Some [] \<noteq> (None :: string option)"
  by (simp add: getChildren_def example_host_def falsy_def)

text \<open>
  C9, amended. Without an active text editor the query returns the empty list and shows
  no message, whatever the workspace root; and the information message is shown exactly
  when there is an active note and the workspace root is \<^verbatim>\<open>null\<close> or the empty string.
\<close>

theorem notice_precedence:
  "(activeTextEditor host = None \<longrightarrow>
      getChildren host workspaceRoot element = ([], Inr [])) \<and>
   (ShowInformationMessage msg \<in> set (fst (getChildren host workspaceRoot element)) \<longleftrightarrow>
      msg = ''No refs in empty workspace'' \<and>
      (\<exists>u. activeTextEditor host = Some u \<and> fsPath u \<noteq> []) \<and>
      (workspaceRoot = None \<or> workspaceRoot = Some []))"
proof (cases "falsy (map_option fsPath (activeTextEditor host))")
  case True
  then have "getChildren host workspaceRoot element = ([], Inr [])"
    by (rule getChildren_no_active)
  with True show ?thesis by (auto simp: falsy_def split: option.splits)
next
  case False
  then obtain u where u: "activeTextEditor host = Some u" "fsPath u \<noteq> []"
    by (auto simp: falsy_def split: option.splits)
  show ?thesis
  proof (cases "falsy workspaceRoot")
    case True
    with False have "getChildren host workspaceRoot element =
        ([ShowInformationMessage ''No refs in empty workspace''], Inr [])"
      by (rule getChildren_no_workspace)
    with True u show ?thesis by (auto simp: falsy_def split: option.splits)
  next
    case f: False
    from getChildren_no_message [OF u f]
    have "ShowInformationMessage msg \<notin> set (fst (getChildren host workspaceRoot element))" .
    with f u show ?thesis by (auto simp: falsy_def split: option.splits)
  qed
qed

theorem notice_precedence_witness:
  "getChildren (example_host None) None None = ([], Inr []) \<and>
   ShowInformationMessage ''No refs in empty workspace''
     \<in> set (fst (getChildren (example_host (Some \<lparr>fsPath = ''/notes/b.md''\<rparr>)) None None))"
  using notice_precedence [where host = "example_host None" and workspaceRoot = None
      and element = None]
    notice_precedence [where host = "example_host (Some \<lparr>fsPath = ''/notes/b.md''\<rparr>)"
      and workspaceRoot = None and element = None and msg = "''No refs in empty workspace''"]
  by (simp add: example_host_def)

text \<open>
  C10. The constructor of an item for a location throws a \<^verbatim>\<open>TypeError\<close> exactly when
  the start line of the location is not an index into the lines of the given text, and
  returns an item exactly when it is one. In particular it throws when the text is
  missing or empty and the start line is 1 or more.
\<close>

theorem preview_totality:
  "(new_BacklinkItem lbl cs locs (Some l) fname fc = Inl TypeError
      \<longleftrightarrow> length (file_lines fc) \<le> line (start (range_of l)))
   \<and> ((\<exists>item. new_BacklinkItem lbl cs locs (Some l) fname fc = Inr item)
      \<longleftrightarrow> line (start (range_of l)) < length (file_lines fc))
   \<and> (falsy fc \<and> 1 \<le> line (start (range_of l))
      \<longrightarrow> new_BacklinkItem lbl cs locs (Some l) fname fc = Inl TypeError)"
proof (cases "line (start (range_of l)) < length (file_lines fc)")
  case True
  then show ?thesis
    by (auto simp: new_BacklinkItem_location preview_Inr file_lines_falsy)
next
  case False
  then show ?thesis
    by (auto simp: new_BacklinkItem_location preview_Inl file_lines_falsy)
qed

theorem preview_totality_witness:
  "new_BacklinkItem ''2:'' CollapsibleNone None (Some (hit ''/notes/a.md'' 1 0 5))
     (Some ''a.md'') None = Inl TypeError \<and>
   length (file_lines None) = 1"
  using preview_totality [of "''2:''" CollapsibleNone None "hit ''/notes/a.md'' 1 0 5"
      "Some ''a.md''" None]
  by (simp add: file_lines_def falsy_def hit_def)

end
